theory Spec2Isabelle
  imports Main
begin

section \<open>Python values used by \<open>app.py\<close>\<close>

text \<open>
  Exceptions are values. The constructors are the classes that the code of \<open>app.py\<close>
  and the built-in operations it uses can raise, one constructor for any other class
  derived from \<open>Exception\<close> that a library raises (class name and message), and one for
  the classes derived from \<open>BaseException\<close> only (\<open>KeyboardInterrupt\<close>, \<open>SystemExit\<close>),
  which \<open>except Exception\<close> does not catch.
\<close>

datatype exn =
    RuntimeError string
  | ValueError string
  | KeyError string
  | ZeroDivisionError string
  | LibraryError string string
  | SystemExiting string

text \<open>\<open>isinstance(e, Exception)\<close>\<close>

fun is_Exception :: "exn \<Rightarrow> bool" where
  "is_Exception (SystemExiting _) = False"
| "is_Exception _ = True"

text \<open>
  \<open>repr\<close> of a string of ASCII characters: in single quotes, or in double quotes when it
  has a single quote and no double quote; the quote in use and the backslash are escaped,
  and so are the control characters.
\<close>

definition hex_digit :: "nat \<Rightarrow> char" where
  "hex_digit n = ''0123456789abcdef'' ! (n mod 16)"

definition repr_char :: "char \<Rightarrow> char \<Rightarrow> string" where
  "repr_char quote c =
     (let n = (of_char c :: nat)
      in if c = quote \<or> c = CHR 0x5C then [CHR 0x5C, c]
         else if n = 9 then [CHR 0x5C, CHR ''t'']
         else if n = 10 then [CHR 0x5C, CHR ''n'']
         else if n = 13 then [CHR 0x5C, CHR ''r'']
         else if n < 32 \<or> n = 127
           then [CHR 0x5C, CHR ''x'', hex_digit (n div 16), hex_digit n]
         else [c])"

definition py_repr :: "string \<Rightarrow> string" where
  "py_repr s =
     (let quote = (if CHR 0x27 \<in> set s \<and> CHR 0x22 \<notin> set s then CHR 0x22 else CHR 0x27)
      in quote # concat (map (repr_char quote) s) @ [quote])"

text \<open>
  \<open>str(e)\<close>, as the f-string \<open>f"Error: {e}"\<close> formats it: the message the exception
  was made with, and for a \<open>KeyError\<close> the \<open>repr\<close> of the key.
\<close>

fun str_exn :: "exn \<Rightarrow> string" where
  "str_exn (RuntimeError m) = m"
| "str_exn (ValueError m) = m"
| "str_exn (KeyError k) = py_repr k"
| "str_exn (ZeroDivisionError m) = m"
| "str_exn (LibraryError c m) = m"
| "str_exn (SystemExiting m) = m"

subsection \<open>Strings\<close>

text \<open>
  A Python string is the \<open>string\<close> of the bytes of its UTF-8 encoding, in which a
  character of ASCII is one byte and no byte of another character is the byte of an ASCII
  character; the keywords and all messages of \<open>app.py\<close> are ASCII.

  \<open>str.lower\<close> maps cased characters of all of Unicode (\<open>U+212A\<close> to \<open>k\<close>, for
  instance), so it is not defined here: the classifier takes it as its parameter
  \<open>lower\<close>, and what is proved about the classifier holds for every function in its
  place. \<open>ascii_lower\<close> is what \<open>str.lower\<close> does on a string of ASCII characters: the
  letters \<open>A\<close>..\<open>Z\<close> become \<open>a\<close>..\<open>z\<close> and every other character is kept. It
  is used to run the classifier on ASCII transcripts.
\<close>

definition ascii_lower_char :: "char \<Rightarrow> char" where
  "ascii_lower_char c =
     (let n = (of_char c :: nat) in if 65 \<le> n \<and> n \<le> 90 then char_of (n + 32) else c)"

definition ascii_lower :: "string \<Rightarrow> string" where
  "ascii_lower text = map ascii_lower_char text"

text \<open>\<open>text.startswith(word)\<close> and the substring test \<open>word in text\<close>.\<close>

fun startswith :: "string \<Rightarrow> string \<Rightarrow> bool" where
  "startswith text [] = True"
| "startswith [] (w # ws) = False"
| "startswith (c # cs) (w # ws) = (c = w \<and> startswith cs ws)"

fun str_in :: "string \<Rightarrow> string \<Rightarrow> bool" where
  "str_in word [] = (word = [])"
| "str_in word (c # cs) = (startswith (c # cs) word \<or> str_in word cs)"

text \<open>\<open>str(i)\<close> for an integer, as an f-string formats it.\<close>

fun digits :: "nat \<Rightarrow> string" where
  "digits n =
     (if n < 10 then [''0123456789'' ! n]
      else digits (n div 10) @ [''0123456789'' ! (n mod 10)])"

declare digits.simps [simp del]

definition str_int :: "int \<Rightarrow> string" where
  "str_int i = (if i < 0 then CHR ''-'' # digits (nat (- i)) else digits (nat i))"

subsection \<open>Floating point\<close>

text \<open>
  \<open>scores[accent] / total * 100\<close> is computed in binary64. A float is a pair of a signed
  mantissa and an exponent, \<open>Double m e\<close> standing for \<open>m * 2 ^ e\<close>. Every operation
  rounds the exact result to 53 significant bits, to nearest, ties to even, which is what
  CPython does for \<open>int / int\<close> and for \<open>float * float\<close> as long as the magnitude of the
  result stays in the normal range (here it lies between \<open>1/16\<close> and \<open>100\<close>).
\<close>

datatype double = Double (mant: int) (expo: int)

text \<open>\<open>int.bit_length\<close>\<close>

function bit_length :: "int \<Rightarrow> int" where
  "bit_length n = (if n = 0 then 0 else 1 + bit_length (\<bar>n\<bar> div 2))"
  by pat_completeness auto
termination
  by (relation "measure (\<lambda>n. nat \<bar>n\<bar>)") auto

declare bit_length.simps [simp del]

text \<open>The quotient \<open>n / d\<close> (\<open>0 \<le> n\<close>, \<open>0 < d\<close>) rounded to the nearest integer, ties to even.\<close>

definition div_half_even :: "int \<Rightarrow> int \<Rightarrow> int" where
  "div_half_even n d =
     (let q = n div d; r = n mod d
      in if 2 * r < d then q
         else if d < 2 * r then q + 1
         else if even q then q
         else q + 1)"

text \<open>
  The rational \<open>n / d\<close> (\<open>d \<noteq> 0\<close>) rounded to binary64: \<open>k\<close> or \<open>k - 1\<close> is the binary
  logarithm of the magnitude, rounded down, and the mantissa is the magnitude scaled
  into \<open>[2 ^ 52, 2 ^ 53]\<close> and rounded.
\<close>

definition round_ratio :: "int \<Rightarrow> int \<Rightarrow> double" where
  "round_ratio n d =
     (if n = 0 then Double 0 0
      else
        let a = \<bar>n\<bar>; b = \<bar>d\<bar>;
            k = bit_length a - bit_length b;
            e = (if a * 2 ^ nat (- k) < b * 2 ^ nat k then k - 1 else k) - 52;
            m = div_half_even (a * 2 ^ nat (- e)) (b * 2 ^ nat e)
        in Double (sgn n * sgn d * m) e)"

text \<open>\<open>a / b\<close> on integers (true division).\<close>

definition py_truediv :: "int \<Rightarrow> int \<Rightarrow> exn + double" where
  "py_truediv a b =
     (if b = 0 then Inl (ZeroDivisionError ''division by zero'') else Inr (round_ratio a b))"

text \<open>\<open>x * i\<close> for a float \<open>x\<close> and an integer \<open>i\<close> that binary64 represents exactly.\<close>

definition py_fmul_int :: "double \<Rightarrow> int \<Rightarrow> double" where
  "py_fmul_int x i = round_ratio (mant x * i * 2 ^ nat (expo x)) (2 ^ nat (- expo x))"

text \<open>\<open>int(x)\<close>: truncation towards zero.\<close>

definition py_int :: "double \<Rightarrow> int" where
  "py_int x = sgn (mant x) * ((\<bar>mant x\<bar> * 2 ^ nat (expo x)) div 2 ^ nat (- expo x))"

subsection \<open>Dictionaries\<close>

text \<open>
  The dictionary \<open>scores\<close> is the list of its items in insertion order, the order in
  which Python iterates over it.

  \<open>max(scores, key=scores.get)\<close> walks the keys in that order and replaces the best
  key so far only by a key whose value is strictly greater; on an empty dictionary it
  raises \<open>ValueError\<close>.
\<close>

fun max_from :: "string \<times> int \<Rightarrow> (string \<times> int) list \<Rightarrow> string" where
  "max_from best [] = fst best"
| "max_from best (item # items) =
     (if snd best < snd item then max_from item items else max_from best items)"

fun py_max_key :: "(string \<times> int) list \<Rightarrow> exn + string" where
  "py_max_key [] = Inl (ValueError ''max() iterable argument is empty'')"
| "py_max_key (item # items) = Inr (max_from item items)"

text \<open>\<open>scores[accent]\<close>\<close>

definition dict_getitem :: "(string \<times> int) list \<Rightarrow> string \<Rightarrow> exn + int" where
  "dict_getitem d k = (case map_of d k of None \<Rightarrow> Inl (KeyError k) | Some v \<Rightarrow> Inr v)"

section \<open>The accent classifier\<close>

definition british_keywords :: "string list" where
  "british_keywords =
     [''colour'', ''favourite'', ''realise'', ''aluminium'', ''lorry'', ''biscuit'']"

definition american_keywords :: "string list" where
  "american_keywords =
     [''color'', ''favorite'', ''realize'', ''aluminum'', ''truck'', ''cookie'']"

definition australian_keywords :: "string list" where
  "australian_keywords = [''mate'', ''arvo'', ''barbie'', ''brekkie'']"

text \<open>\<open>sum(word in text for word in keywords)\<close>: each \<open>True\<close> adds 1, each \<open>False\<close> 0.\<close>

definition keyword_score :: "string list \<Rightarrow> string \<Rightarrow> int" where
  "keyword_score keywords text = sum_list (map (\<lambda>word. of_bool (str_in word text)) keywords)"

text \<open>The dictionary \<open>scores\<close> built from the lower-cased text (lines 95 to 103).\<close>

definition scores_of :: "string \<Rightarrow> (string \<times> int) list" where
  "scores_of text =
     (let british_score = keyword_score british_keywords text;
          american_score = keyword_score american_keywords text;
          australian_score = keyword_score australian_keywords text
      in [(''British'', british_score),
          (''American'', american_score),
          (''Australian'', australian_score)])"

text \<open>
  \<open>simple_accent_classifier\<close>, with \<open>str.lower\<close> as the parameter \<open>lower\<close>. \<open>Inl e\<close>
  is the exception \<open>e\<close> raised, \<open>Inr\<close> the triple returned.
\<close>

definition simple_accent_classifier ::
  "(string \<Rightarrow> string) \<Rightarrow> string \<Rightarrow> exn + (string \<times> int \<times> string)" where
  "simple_accent_classifier lower text0 =
     (let text = lower text0;
          scores = scores_of text;
          total = sum_list (map snd scores)
      in if total = 0
         then Inr (''No accent detected'', 0,
                   ''No accent keywords detected in the transcription.'')
         else
           case py_max_key scores of
             Inl e \<Rightarrow> Inl e
           | Inr accent \<Rightarrow>
               (case dict_getitem scores accent of
                  Inl e \<Rightarrow> Inl e
                | Inr score \<Rightarrow>
                    (case py_truediv score total of
                       Inl e \<Rightarrow> Inl e
                     | Inr ratio \<Rightarrow>
                         let confidence = py_int (py_fmul_int ratio 100);
                             explanation =
                               ''Detected keywords suggest '' @ accent
                               @ '' accent with confidence '' @ str_int confidence @ ''%.''
                         in Inr (accent, confidence, explanation))))"

text \<open>
  What the claims about the classifier speak of: the three counts for a transcript \<open>t\<close>
  (the variables \<open>british_score\<close>, \<open>american_score\<close> and \<open>australian_score\<close> of a call
  on \<open>t\<close>), their sum (the variable \<open>total\<close>), and the value of
  \<open>int(score / total * 100)\<close> for a non-zero \<open>total\<close>.
\<close>

definition british_score :: "(string \<Rightarrow> string) \<Rightarrow> string \<Rightarrow> int" where
  "british_score lower t = keyword_score british_keywords (lower t)"

definition american_score :: "(string \<Rightarrow> string) \<Rightarrow> string \<Rightarrow> int" where
  "american_score lower t = keyword_score american_keywords (lower t)"

definition australian_score :: "(string \<Rightarrow> string) \<Rightarrow> string \<Rightarrow> int" where
  "australian_score lower t = keyword_score australian_keywords (lower t)"

definition total_count :: "(string \<Rightarrow> string) \<Rightarrow> string \<Rightarrow> int" where
  "total_count lower t = sum_list (map snd (scores_of (lower t)))"

definition confidence_of :: "int \<Rightarrow> int \<Rightarrow> int" where
  "confidence_of score tot = py_int (py_fmul_int (round_ratio score tot) 100)"

text \<open>The labels with the keyword lists that lines 95 to 103 pair them with.\<close>

definition lexicon :: "(string \<times> string list) list" where
  "lexicon =
     [(''British'', british_keywords),
      (''American'', american_keywords),
      (''Australian'', australian_keywords)]"

section \<open>The pipeline\<close>

text \<open>
  The state a run of \<open>process_video\<close> acts on: the paths that exist, the video clips that
  are open (one entry for every \<open>VideoFileClip\<close> not yet closed), and the messages shown
  by \<open>st.error\<close>, oldest first.
\<close>

type_synonym fs = "string set"

record state =
  files :: fs
  open_clips :: "string list"
  ui_errors :: "string list"

text \<open>
  The Python runtime and the libraries are parameters. Each call of a library is given
  the paths that exist and answers with an exception or a value, and with the paths that
  exist afterwards; nothing is assumed about either.
  \<^item> \<open>str_lower\<close>: \<open>str.lower\<close>;
  \<^item> \<open>ydl_download url outtmpl\<close>: the block \<open>with yt_dlp.YoutubeDL(ydl_opts) as ydl:
    ydl.download([url])\<close>;
  \<^item> \<open>open_video video_file\<close>: \<open>VideoFileClip(video_file)\<close>; the value tells whether
    \<open>clip.audio\<close> is not \<open>None\<close>;
  \<^item> \<open>write_audiofile video_file audio_file\<close>: \<open>clip.audio.write_audiofile(audio_file)\<close>
    for the clip opened from \<open>video_file\<close>;
  \<^item> \<open>whisper_transcribe audio_file\<close>: \<open>whisper.load_model("base")\<close>,
    \<open>model.transcribe(audio_file)\<close> and \<open>result['text']\<close>;
  \<^item> \<open>os_remove_error path\<close>: the exception with which \<open>os.remove(path)\<close> fails (the
    path is a directory, is in use, may not be removed), or \<open>None\<close> when it succeeds.
\<close>

record env =
  str_lower :: "string \<Rightarrow> string"
  ydl_download :: "string \<Rightarrow> string \<Rightarrow> fs \<Rightarrow> (exn + unit) \<times> fs"
  open_video :: "string \<Rightarrow> fs \<Rightarrow> (exn + bool) \<times> fs"
  write_audiofile :: "string \<Rightarrow> string \<Rightarrow> fs \<Rightarrow> (exn + unit) \<times> fs"
  whisper_transcribe :: "string \<Rightarrow> fs \<Rightarrow> (exn + string) \<times> fs"
  os_remove_error :: "string \<Rightarrow> fs \<Rightarrow> exn option"

text \<open>
  \<open>os.path.exists\<close>; \<open>os.remove\<close>, which removes the path or fails and leaves it;
  \<open>st.error\<close>; \<open>clip.close()\<close>.
\<close>

definition os_path_exists :: "string \<Rightarrow> state \<Rightarrow> bool" where
  "os_path_exists p s = (p \<in> files s)"

definition os_remove :: "env \<Rightarrow> string \<Rightarrow> state \<Rightarrow> (exn + unit) \<times> state" where
  "os_remove env p s =
     (case os_remove_error env p (files s) of
        Some e \<Rightarrow> (Inl e, s)
      | None \<Rightarrow> (Inr (), s\<lparr>files := files s - {p}\<rparr>))"

definition st_error :: "string \<Rightarrow> state \<Rightarrow> state" where
  "st_error msg s = s\<lparr>ui_errors := ui_errors s @ [msg]\<rparr>"

definition clip_close :: "string \<Rightarrow> state \<Rightarrow> state" where
  "clip_close video_file s = s\<lparr>open_clips := remove1 video_file (open_clips s)\<rparr>"

definition download_video :: "env \<Rightarrow> string \<Rightarrow> string \<Rightarrow> state \<Rightarrow> (exn + string) \<times> state" where
  "download_video env url out_file s =
     (case ydl_download env url out_file (files s) of
        (Inl e, fs') \<Rightarrow> (Inl e, s\<lparr>files := fs'\<rparr>)
      | (Inr _, fs') \<Rightarrow> (Inr out_file, s\<lparr>files := fs'\<rparr>))"

text \<open>
  \<open>extract_audio\<close>. The clip is closed before the \<open>RuntimeError\<close> is raised and after
  the audio is written; an exception of \<open>write_audiofile\<close> leaves the function before
  \<open>clip.close()\<close>.
\<close>

definition extract_audio :: "env \<Rightarrow> string \<Rightarrow> string \<Rightarrow> state \<Rightarrow> (exn + string) \<times> state" where
  "extract_audio env video_file audio_file s =
     (case open_video env video_file (files s) of
        (Inl e, fs') \<Rightarrow> (Inl e, s\<lparr>files := fs'\<rparr>)
      | (Inr has_audio, fs') \<Rightarrow>
          let s1 = s\<lparr>files := fs', open_clips := video_file # open_clips s\<rparr>
          in if \<not> has_audio
             then (Inl (RuntimeError (''No audio stream found in '' @ video_file)),
                   clip_close video_file s1)
             else
               (case write_audiofile env video_file audio_file (files s1) of
                  (Inl e, fs'') \<Rightarrow> (Inl e, s1\<lparr>files := fs''\<rparr>)
                | (Inr _, fs'') \<Rightarrow> (Inr audio_file, clip_close video_file (s1\<lparr>files := fs''\<rparr>))))"

definition transcribe_audio :: "env \<Rightarrow> string \<Rightarrow> state \<Rightarrow> (exn + string) \<times> state" where
  "transcribe_audio env audio_file s =
     (case whisper_transcribe env audio_file (files s) of
        (r, fs') \<Rightarrow> (r, s\<lparr>files := fs'\<rparr>))"

text \<open>
  The tuple \<open>process_video\<close> returns: every component is a value or \<open>None\<close>.
\<close>

type_synonym result = "string option \<times> string option \<times> int option \<times> string option"

text \<open>
  The body of the \<open>try\<close> (lines 135 to 139). It yields the exception raised or the tuple
  to return, and the variables \<open>video_file\<close> and \<open>audio_file\<close> as they are when the body
  is left: \<open>None\<close> until the call that assigns them has returned.
\<close>

definition try_body ::
  "env \<Rightarrow> string \<Rightarrow> state \<Rightarrow> (exn + result) \<times> string option \<times> string option \<times> state" where
  "try_body env url s0 =
     (case download_video env url ''downloaded_video.mp4'' s0 of
        (Inl e, s1) \<Rightarrow> (Inl e, None, None, s1)
      | (Inr video_file, s1) \<Rightarrow>
          (case extract_audio env video_file ''audio.wav'' s1 of
             (Inl e, s2) \<Rightarrow> (Inl e, Some video_file, None, s2)
           | (Inr audio_file, s2) \<Rightarrow>
               (case transcribe_audio env audio_file s2 of
                  (Inl e, s3) \<Rightarrow> (Inl e, Some video_file, Some audio_file, s3)
                | (Inr transcription, s3) \<Rightarrow>
                    (case simple_accent_classifier (str_lower env) transcription of
                       Inl e \<Rightarrow> (Inl e, Some video_file, Some audio_file, s3)
                     | Inr (accent, confidence, explanation) \<Rightarrow>
                         (Inr (Some transcription, Some accent, Some confidence,
                               Some explanation),
                          Some video_file, Some audio_file, s3)))))"

text \<open>
  \<open>except Exception as e\<close> (lines 140 to 142): an exception that is an \<open>Exception\<close> is
  reported and replaced by the tuple of four \<open>None\<close>; any other goes on.
\<close>

definition except_clause :: "(exn + result) \<Rightarrow> state \<Rightarrow> (exn + result) \<times> state" where
  "except_clause outcome s =
     (case outcome of
        Inl e \<Rightarrow>
          if is_Exception e
          then (Inr (None, None, None, None), st_error (''Error: '' @ str_exn e) s)
          else (Inl e, s)
      | Inr r \<Rightarrow> (Inr r, s))"

text \<open>
  The \<open>finally\<close> block (lines 143 to 148). \<open>if video_file and ...\<close> holds for a variable
  that is neither \<open>None\<close> nor the empty string. An exception of the first \<open>os.remove\<close>
  leaves the block before the second.
\<close>

definition remove_if_exists :: "env \<Rightarrow> string option \<Rightarrow> state \<Rightarrow> (exn + unit) \<times> state" where
  "remove_if_exists env var s =
     (case var of
        None \<Rightarrow> (Inr (), s)
      | Some p \<Rightarrow> if p \<noteq> [] \<and> os_path_exists p s then os_remove env p s else (Inr (), s))"

definition finally_block ::
  "env \<Rightarrow> string option \<Rightarrow> string option \<Rightarrow> state \<Rightarrow> (exn + unit) \<times> state" where
  "finally_block env video_file audio_file s =
     (case remove_if_exists env video_file s of
        (Inl e, s1) \<Rightarrow> (Inl e, s1)
      | (Inr _, s1) \<Rightarrow> remove_if_exists env audio_file s1)"

text \<open>
  \<open>process_video\<close>: \<open>Inl e\<close> is the exception \<open>e\<close> leaving the function, \<open>Inr r\<close> the
  returned tuple. An exception raised in the \<open>finally\<close> block takes the place of the
  tuple to return and of the exception on its way out.
\<close>

definition process_video :: "env \<Rightarrow> string \<Rightarrow> state \<Rightarrow> (exn + result) \<times> state" where
  "process_video env url s0 =
     (case try_body env url s0 of
        (outcome, video_file, audio_file, s) \<Rightarrow>
          (case except_clause outcome s of
             (outcome', s') \<Rightarrow>
               (case finally_block env video_file audio_file s' of
                  (Inl e, s'') \<Rightarrow> (Inl e, s'')
                | (Inr _, s'') \<Rightarrow> (outcome', s''))))"

subsection \<open>Environments to run the pipeline in\<close>

text \<open>
  \<open>env_ok\<close>: every library call succeeds; the download writes its output file, the
  extractor writes the audio file, the transcript is fixed. The others differ from it in
  one call: a video without audio track, an audio writer that fails after it has created
  its file, a removal that fails (also for the video without audio track), a download that
  is interrupted.
\<close>

definition env_ok :: env where
  "env_ok =
     \<lparr>str_lower = ascii_lower,
      ydl_download = (\<lambda>url out_file fs. (Inr (), insert out_file fs)),
      open_video = (\<lambda>video_file fs. (Inr True, fs)),
      write_audiofile = (\<lambda>video_file audio_file fs. (Inr (), insert audio_file fs)),
      whisper_transcribe = (\<lambda>audio_file fs. (Inr ''My favourite colour, mate'', fs)),
      os_remove_error = (\<lambda>p fs. None)\<rparr>"

definition env_silent :: env where
  "env_silent = env_ok\<lparr>open_video := (\<lambda>video_file fs. (Inr False, fs))\<rparr>"

definition env_disk_full :: env where
  "env_disk_full =
     env_ok\<lparr>write_audiofile :=
       (\<lambda>video_file audio_file fs.
          (Inl (LibraryError ''OSError'' ''[Errno 28] No space left on device''),
           insert audio_file fs))\<rparr>"

definition env_locked :: env where
  "env_locked =
     env_ok\<lparr>os_remove_error :=
       (\<lambda>p fs. Some (LibraryError ''PermissionError''
          ''[WinError 32] The process cannot access the file''))\<rparr>"

definition env_silent_locked :: env where
  "env_silent_locked = env_silent\<lparr>os_remove_error := os_remove_error env_locked\<rparr>"

definition env_interrupted :: env where
  "env_interrupted =
     env_ok\<lparr>ydl_download :=
       (\<lambda>url out_file fs. (Inl (SystemExiting ''KeyboardInterrupt''), fs))\<rparr>"

definition state0 :: state where
  "state0 = \<lparr>files = {}, open_clips = [], ui_errors = []\<rparr>"

section \<open>Auxiliary facts\<close>

subsection \<open>Strings and counts\<close>

lemma startswith_iff: "startswith t word \<longleftrightarrow> (\<exists>ss. t = word @ ss)"
  by (induction t word rule: startswith.induct) auto

lemma str_in_iff: "str_in word t \<longleftrightarrow> (\<exists>ps ss. t = ps @ word @ ss)"
proof (induction t)
  case Nil
  then show ?case by auto
next
  case (Cons c cs)
  show ?case
  proof
    assume "str_in word (c # cs)"
    then consider "startswith (c # cs) word" | "str_in word cs" by auto
    then show "\<exists>ps ss. c # cs = ps @ word @ ss"
    proof cases
      case 1
      then obtain ss where "c # cs = word @ ss" by (auto simp: startswith_iff)
      then have "c # cs = [] @ word @ ss" by simp
      then show ?thesis by blast
    next
      case 2
      then obtain ps ss where "cs = ps @ word @ ss" using Cons.IH by auto
      then have "c # cs = (c # ps) @ word @ ss" by simp
      then show ?thesis by blast
    qed
  next
    assume "\<exists>ps ss. c # cs = ps @ word @ ss"
    then obtain ps ss where eq: "c # cs = ps @ word @ ss" by blast
    show "str_in word (c # cs)"
    proof (cases ps)
      case Nil
      with eq have "startswith (c # cs) word" by (auto simp: startswith_iff)
      then show ?thesis by simp
    next
      case (Cons p ps')
      with eq have "cs = ps' @ word @ ss" by simp
      then have "str_in word cs" using Cons.IH by blast
      then show ?thesis by simp
    qed
  qed
qed

lemma keyword_score_filter:
  "keyword_score ks t = int (length (filter (\<lambda>word. str_in word t) ks))"
  unfolding keyword_score_def by (induction ks) auto

lemma keyword_score_bounds:
  "0 \<le> keyword_score ks t" "keyword_score ks t \<le> int (length ks)"
  unfolding keyword_score_filter by simp_all

lemma max_from3:
  "max_from (k1, b) [(k2, a), (k3, au)] =
     (if b < a then (if a < au then k3 else k2) else (if b < au then k3 else k1))"
  by simp

lemma classifier_scores:
  assumes "scores_of (lower t) = [(''British'', b), (''American'', a), (''Australian'', au)]"
    and "b + a + au \<noteq> 0"
  shows "simple_accent_classifier lower t =
     (let accent = (if b < a then (if a < au then ''Australian'' else ''American'')
                    else (if b < au then ''Australian'' else ''British''));
          score = (if b < a then (if a < au then au else a) else (if b < au then au else b));
          confidence = confidence_of score (b + a + au)
      in Inr (accent, confidence,
              ''Detected keywords suggest '' @ accent @ '' accent with confidence ''
              @ str_int confidence @ ''%.''))"
  using assms
  by (simp add: simple_accent_classifier_def Let_def dict_getitem_def py_truediv_def
      confidence_of_def add.assoc)

lemma classifier_zero:
  assumes "total_count lower t = 0"
  shows "simple_accent_classifier lower t =
     Inr (''No accent detected'', 0, ''No accent keywords detected in the transcription.'')"
  using assms by (simp add: simple_accent_classifier_def total_count_def Let_def)

lemma scores_of_eq:
  "scores_of x = [(''British'', keyword_score british_keywords x),
     (''American'', keyword_score american_keywords x),
     (''Australian'', keyword_score australian_keywords x)]"
  by (simp add: scores_of_def Let_def)

lemma total_count_eq:
  "total_count lower t = keyword_score british_keywords (lower t)
     + keyword_score american_keywords (lower t) + keyword_score australian_keywords (lower t)"
  by (simp add: total_count_def scores_of_eq)

subsection \<open>The confidence on the counts the keyword lists allow\<close>

lemma conf_row1: "\<forall>t\<in>set [1..3]. confidence_of 1 t = 100 * 1 div t" by code_simp
lemma conf_row2: "\<forall>t\<in>set [2..6]. confidence_of 2 t = 100 * 2 div t" by code_simp
lemma conf_row3: "\<forall>t\<in>set [3..9]. confidence_of 3 t = 100 * 3 div t" by code_simp
lemma conf_row4: "\<forall>t\<in>set [4..12]. confidence_of 4 t = 100 * 4 div t" by code_simp
lemma conf_row5: "\<forall>t\<in>set [5..15]. confidence_of 5 t = 100 * 5 div t" by code_simp
lemma conf_row6: "\<forall>t\<in>set [6..16]. confidence_of 6 t = 100 * 6 div t" by code_simp

lemma confidence_floor:
  assumes "1 \<le> w" "w \<le> 6" "w \<le> t" "t \<le> 3 * w" "t \<le> 16"
  shows "confidence_of w t = 100 * w div t"
proof -
  from assms consider "w = 1" | "w = 2" | "w = 3" | "w = 4" | "w = 5" | "w = 6" by arith
  then show ?thesis
  proof cases
    case 1
    with assms have "t \<in> set [1..3]" by (simp only: set_upto atLeastAtMost_iff; simp)
    from bspec [OF conf_row1 this] 1 show ?thesis by simp
  next
    case 2
    with assms have "t \<in> set [2..6]" by (simp only: set_upto atLeastAtMost_iff; simp)
    from bspec [OF conf_row2 this] 2 show ?thesis by simp
  next
    case 3
    with assms have "t \<in> set [3..9]" by (simp only: set_upto atLeastAtMost_iff; simp)
    from bspec [OF conf_row3 this] 3 show ?thesis by simp
  next
    case 4
    with assms have "t \<in> set [4..12]" by (simp only: set_upto atLeastAtMost_iff; simp)
    from bspec [OF conf_row4 this] 4 show ?thesis by simp
  next
    case 5
    with assms have "t \<in> set [5..15]" by (simp only: set_upto atLeastAtMost_iff; simp)
    from bspec [OF conf_row5 this] 5 show ?thesis by simp
  next
    case 6
    with assms have "t \<in> set [6..16]" by (simp only: set_upto atLeastAtMost_iff; simp)
    from bspec [OF conf_row6 this] 6 show ?thesis by simp
  qed
qed

subsection \<open>The classifier in terms of the three counts\<close>

lemma scores_of_lower:
  "scores_of (lower t) =
     [(''British'', british_score lower t), (''American'', american_score lower t),
      (''Australian'', australian_score lower t)]"
  by (simp add: scores_of_def british_score_def american_score_def australian_score_def)

lemma total_count_sum:
  "total_count lower t = british_score lower t + american_score lower t + australian_score lower t"
  by (simp add: total_count_def scores_of_lower)

lemma score_ranges:
  "0 \<le> british_score lower t" "british_score lower t \<le> 6"
  "0 \<le> american_score lower t" "american_score lower t \<le> 6"
  "0 \<le> australian_score lower t" "australian_score lower t \<le> 4"
  using keyword_score_bounds [of british_keywords "lower t"]
    keyword_score_bounds [of american_keywords "lower t"]
    keyword_score_bounds [of australian_keywords "lower t"]
  by (simp_all add: british_score_def american_score_def australian_score_def
      british_keywords_def american_keywords_def australian_keywords_def)

lemma floor_percentage_range:
  fixes w t :: int
  assumes "0 \<le> w" "w \<le> t" "0 < t"
  shows "0 \<le> 100 * w div t" "100 * w div t \<le> 100"
proof -
  from assms show "0 \<le> 100 * w div t" by (simp add: pos_imp_zdiv_nonneg_iff)
  from assms have "100 * w \<le> 100 * t" by simp
  then have "100 * w div t \<le> 100 * t div t" using assms(3) by (rule zdiv_mono1)
  with assms(3) show "100 * w div t \<le> 100" by simp
qed

text \<open>The classifier on a transcript with a keyword, in terms of the three counts.\<close>

lemma classifier_positive:
  assumes "0 < total_count lower t"
  shows "simple_accent_classifier lower t =
     (let accent = (if british_score lower t < american_score lower t
                    then (if american_score lower t < australian_score lower t then ''Australian''
                          else ''American'')
                    else (if british_score lower t < australian_score lower t then ''Australian''
                          else ''British''));
          score = max (british_score lower t) (max (american_score lower t) (australian_score lower t));
          confidence = 100 * score div total_count lower t
      in Inr (accent, confidence,
              ''Detected keywords suggest '' @ accent @ '' accent with confidence ''
              @ str_int confidence @ ''%.''))"
proof -
  let ?b = "british_score lower t" and ?a = "american_score lower t" and ?u = "australian_score lower t"
  let ?w = "max ?b (max ?a ?u)"
  have tot: "total_count lower t = ?b + ?a + ?u" by (rule total_count_sum)
  note r = score_ranges [of lower t]
  from assms tot have nz: "?b + ?a + ?u \<noteq> 0" by simp
  have w1: "1 \<le> ?w" using assms tot r by linarith
  have w6: "?w \<le> 6" using r by simp
  have wt: "?w \<le> total_count lower t" using tot r by linarith
  have t3: "total_count lower t \<le> 3 * ?w" using tot by linarith
  have t16: "total_count lower t \<le> 16" using tot r by linarith
  have conf: "confidence_of ?w (?b + ?a + ?u) = 100 * ?w div total_count lower t"
    using confidence_floor [OF w1 w6 wt t3 t16] tot by simp
  have sel: "(if ?b < ?a then (if ?a < ?u then ?u else ?a) else (if ?b < ?u then ?u else ?b)) = ?w"
    by (simp add: max_def)
  show ?thesis
    unfolding classifier_scores [of lower t, OF scores_of_lower nz] Let_def sel conf ..
qed

subsection \<open>Counting keywords\<close>

lemma keyword_score_presence:
  "keyword_score ks x = (\<Sum>word\<leftarrow>ks. if (\<exists>ps ss. x = ps @ word @ ss) then 1 else 0)"
  unfolding keyword_score_def by (induction ks) (simp_all add: str_in_iff)

lemma keyword_score_card:
  assumes "distinct ks"
  shows "keyword_score ks x = int (card {word \<in> set ks. \<exists>ps ss. x = ps @ word @ ss})"
proof -
  have "keyword_score ks x = int (length (filter (\<lambda>word. \<exists>ps ss. x = ps @ word @ ss) ks))"
    by (simp add: keyword_score_filter str_in_iff)
  also have "\<dots> = int (card (set (filter (\<lambda>word. \<exists>ps ss. x = ps @ word @ ss) ks)))"
    using assms by (simp only: distinct_card [OF distinct_filter])
  finally show ?thesis by (simp only: set_filter)
qed

lemma keyword_score_none:
  assumes "\<forall>word\<in>set ks. \<not> (\<exists>ps ss. x = ps @ word @ ss)"
  shows "keyword_score ks x = 0"
proof -
  from assms have "filter (\<lambda>word. str_in word x) ks = []"
    by (simp add: str_in_iff filter_empty_conv)
  then show ?thesis by (simp add: keyword_score_filter)
qed

lemma filter_single:
  assumes "distinct ks" "w \<in> set ks" "P w" "\<forall>v\<in>set ks. P v \<longrightarrow> v = w"
  shows "filter P ks = [w]"
  using assms
proof (induction ks)
  case Nil
  then show ?case by simp
next
  case (Cons k ks)
  from Cons.prems(1) have nk: "k \<notin> set ks" and dk: "distinct ks" by simp_all
  from Cons.prems(4) have all: "\<And>v. v \<in> set ks \<Longrightarrow> P v \<Longrightarrow> v = w" by simp
  show ?case
  proof (cases "k = w")
    case True
    have "\<forall>v\<in>set ks. \<not> P v"
    proof (intro ballI notI)
      fix v assume "v \<in> set ks" "P v"
      with all have "v = w" by blast
      with \<open>v \<in> set ks\<close> nk True show False by blast
    qed
    then have "filter P ks = []" by (simp only: filter_empty_conv)
    with True Cons.prems(3) show ?thesis by simp
  next
    case False
    from Cons.prems(4) have "P k \<longrightarrow> k = w" by simp
    with False have npk: "\<not> P k" by blast
    from False Cons.prems(2) have "w \<in> set ks" by simp
    from Cons.IH [OF dk this Cons.prems(3)] all have "filter P ks = [w]" by blast
    with npk show ?thesis by simp
  qed
qed

lemma keyword_score_single:
  assumes "distinct ks" "word \<in> set ks" "\<exists>ps ss. x = ps @ word @ ss"
    and "\<forall>w\<in>set ks. (\<exists>ps ss. x = ps @ w @ ss) \<longrightarrow> w = word"
  shows "keyword_score ks x = 1"
proof -
  from assms(3) have a: "str_in word x" by (simp only: str_in_iff)
  from assms(4) have b: "\<forall>w\<in>set ks. str_in w x \<longrightarrow> w = word" by (simp only: str_in_iff)
  have "filter (\<lambda>w. str_in w x) ks = [word]"
    using assms(1,2) a b by (rule filter_single)
  then show ?thesis by (simp only: keyword_score_filter) simp
qed

lemma distinct_keywords:
  "distinct british_keywords" "distinct american_keywords" "distinct australian_keywords"
  by (simp_all add: british_keywords_def american_keywords_def australian_keywords_def)

lemma keywords_disjoint:
  "set british_keywords \<inter> set american_keywords = {}"
  "set british_keywords \<inter> set australian_keywords = {}"
  "set american_keywords \<inter> set australian_keywords = {}"
  by (simp_all add: british_keywords_def american_keywords_def australian_keywords_def)

lemma str_int_100: "str_int 100 = ''100''"
  by code_simp

lemma none_occurs_total_zero:
  assumes "\<forall>word\<in>set (british_keywords @ american_keywords @ australian_keywords).
        \<not> (\<exists>ps ss. lower t = ps @ word @ ss)"
  shows "total_count lower t = 0"
proof -
  from assms have
    b: "\<forall>word\<in>set british_keywords. \<not> (\<exists>ps ss. lower t = ps @ word @ ss)" and
    a: "\<forall>word\<in>set american_keywords. \<not> (\<exists>ps ss. lower t = ps @ word @ ss)" and
    u: "\<forall>word\<in>set australian_keywords. \<not> (\<exists>ps ss. lower t = ps @ word @ ss)"
    by (simp_all only: set_append ball_Un) blast+
  have "british_score lower t = 0" "american_score lower t = 0" "australian_score lower t = 0"
    unfolding british_score_def american_score_def australian_score_def
    by (rule keyword_score_none [OF b] keyword_score_none [OF a] keyword_score_none [OF u])+
  then show ?thesis by (simp add: total_count_sum)
qed

section \<open>The claims about the classifier\<close>

text \<open>
  Claim C1. Whatever function \<open>lower\<close> stands for \<open>str.lower\<close>, the classifier raises no
  exception on any transcript: it always returns a triple (so neither \<open>max\<close>, nor the
  dictionary lookup, nor the division fails). On a transcript whose lower-cased text
  contains no keyword of any of the three lists the sum of the counts is zero, and
  whenever that sum is zero the result is
  \<open>("No accent detected", 0, "No accent keywords detected in the transcription.")\<close>.
\<close>

theorem no_keyword_no_accent:
  "(\<exists>r. simple_accent_classifier lower t = Inr r) \<and>
   ((\<forall>word\<in>set (british_keywords @ american_keywords @ australian_keywords).
        \<not> (\<exists>ps ss. lower t = ps @ word @ ss)) \<longrightarrow>
      total_count lower t = 0 \<and>
      simple_accent_classifier lower t =
        Inr (''No accent detected'', 0, ''No accent keywords detected in the transcription.'')) \<and>
   (total_count lower t = 0 \<longrightarrow>
      simple_accent_classifier lower t =
        Inr (''No accent detected'', 0, ''No accent keywords detected in the transcription.''))"
proof (intro conjI impI)
  show "\<exists>r. simple_accent_classifier lower t = Inr r"
  proof (cases "total_count lower t = 0")
    case True
    then show ?thesis by (simp add: classifier_zero)
  next
    case False
    with score_ranges [of lower t] have "0 < total_count lower t" by (simp add: total_count_sum)
    then show ?thesis by (simp add: classifier_positive Let_def)
  qed
next
  assume "\<forall>word\<in>set (british_keywords @ american_keywords @ australian_keywords).
        \<not> (\<exists>ps ss. lower t = ps @ word @ ss)"
  then show z: "total_count lower t = 0" by (rule none_occurs_total_zero)
  then show "simple_accent_classifier lower t =
        Inr (''No accent detected'', 0, ''No accent keywords detected in the transcription.'')"
    by (rule classifier_zero)
next
  assume "total_count lower t = 0"
  then show "simple_accent_classifier lower t =
        Inr (''No accent detected'', 0, ''No accent keywords detected in the transcription.'')"
    by (rule classifier_zero)
qed

theorem no_keyword_no_accent_witness:
  "\<not> (\<exists>word\<in>set (british_keywords @ american_keywords @ australian_keywords).
        \<exists>ps ss. ascii_lower ''Hello World'' = ps @ word @ ss) \<and>
   total_count ascii_lower ''Hello World'' = 0 \<and>
   simple_accent_classifier ascii_lower ''Hello World'' =
     Inr (''No accent detected'', 0, ''No accent keywords detected in the transcription.'')"
proof -
  have "\<forall>word\<in>set (british_keywords @ american_keywords @ australian_keywords).
        \<not> str_in word (ascii_lower ''Hello World'')"
    by code_simp
  then have h: "\<forall>word\<in>set (british_keywords @ american_keywords @ australian_keywords).
        \<not> (\<exists>ps ss. ascii_lower ''Hello World'' = ps @ word @ ss)"
    by (simp only: str_in_iff)
  with no_keyword_no_accent [of ascii_lower "''Hello World''"] show ?thesis by blast
qed

text \<open>
  Claim C2. For every transcript (and whatever function stands for \<open>str.lower\<close>) the
  classifier returns a triple whose confidence lies between 0 and 100; when the sum of the
  counts is positive, the returned label is a key of \<open>scores\<close>, its count is the largest
  of the three, and the confidence, computed as \<open>int(score / total * 100)\<close> in binary64,
  is the integer \<open>100 * score div total\<close>, the percentage rounded down.
\<close>

theorem confidence_range_and_floor:
  "\<exists>accent confidence explanation.
     simple_accent_classifier lower t = Inr (accent, confidence, explanation) \<and>
     0 \<le> confidence \<and> confidence \<le> 100 \<and>
     (0 < total_count lower t \<longrightarrow>
        (\<exists>winning. map_of (scores_of (lower t)) accent = Some winning \<and>
           winning = max (british_score lower t)
                       (max (american_score lower t) (australian_score lower t)) \<and>
           confidence = 100 * winning div total_count lower t))"
proof (cases "total_count lower t = 0")
  case True
  then show ?thesis by (simp add: classifier_zero)
next
  case False
  let ?w = "max (british_score lower t) (max (american_score lower t) (australian_score lower t))"
  note r = score_ranges [of lower t]
  from False r have pos: "0 < total_count lower t" by (simp add: total_count_sum)
  have "0 \<le> ?w" using r by simp
  moreover have "?w \<le> total_count lower t" using r by (simp add: total_count_sum)
  ultimately have "0 \<le> 100 * ?w div total_count lower t"
    "100 * ?w div total_count lower t \<le> 100"
    using pos by (rule floor_percentage_range)+
  then show ?thesis
    using pos by (simp add: classifier_positive Let_def scores_of_lower max_def)
qed

theorem confidence_range_and_floor_witness:
  "0 < total_count ascii_lower ''My favorite color is on the lorry'' \<and>
   simple_accent_classifier ascii_lower ''My favorite color is on the lorry'' =
     Inr (''American'', 66, ''Detected keywords suggest American accent with confidence 66%.'') \<and>
   map_of (scores_of (ascii_lower ''My favorite color is on the lorry'')) ''American'' = Some 2 \<and>
   total_count ascii_lower ''My favorite color is on the lorry'' = 3 \<and>
   (\<exists>accent confidence explanation.
     simple_accent_classifier ascii_lower ''My favorite color is on the lorry''
       = Inr (accent, confidence, explanation) \<and>
     0 \<le> confidence \<and> confidence \<le> 100 \<and>
     (\<exists>winning. map_of (scores_of (ascii_lower ''My favorite color is on the lorry'')) accent
          = Some winning \<and>
        confidence = 100 * winning div total_count ascii_lower ''My favorite color is on the lorry''))"
proof -
  have h: "0 < total_count ascii_lower ''My favorite color is on the lorry''" by code_simp
  have c: "simple_accent_classifier ascii_lower ''My favorite color is on the lorry'' =
     Inr (''American'', 66, ''Detected keywords suggest American accent with confidence 66%.'')"
    by code_simp
  have m: "map_of (scores_of (ascii_lower ''My favorite color is on the lorry'')) ''American''
      = Some 2"
    by code_simp
  have n: "total_count ascii_lower ''My favorite color is on the lorry'' = 3" by code_simp
  from confidence_range_and_floor [of ascii_lower "''My favorite color is on the lorry''"]
  obtain accent confidence explanation where
    "simple_accent_classifier ascii_lower ''My favorite color is on the lorry''
       = Inr (accent, confidence, explanation)"
    "0 \<le> confidence" "confidence \<le> 100"
    "0 < total_count ascii_lower ''My favorite color is on the lorry'' \<longrightarrow>
      (\<exists>winning. map_of (scores_of (ascii_lower ''My favorite color is on the lorry'')) accent
          = Some winning \<and>
        winning = max (british_score ascii_lower ''My favorite color is on the lorry'')
           (max (american_score ascii_lower ''My favorite color is on the lorry'')
                (australian_score ascii_lower ''My favorite color is on the lorry'')) \<and>
        confidence = 100 * winning div total_count ascii_lower ''My favorite color is on the lorry'')"
    by blast
  with h have "\<exists>accent confidence explanation.
     simple_accent_classifier ascii_lower ''My favorite color is on the lorry''
       = Inr (accent, confidence, explanation) \<and>
     0 \<le> confidence \<and> confidence \<le> 100 \<and>
     (\<exists>winning. map_of (scores_of (ascii_lower ''My favorite color is on the lorry'')) accent
          = Some winning \<and>
        confidence = 100 * winning div total_count ascii_lower ''My favorite color is on the lorry'')"
    by blast
  with h c m n show ?thesis by (intro conjI)
qed

lemma score_presence:
  "british_score lower t =
     (\<Sum>word\<leftarrow>british_keywords. if (\<exists>ps ss. lower t = ps @ word @ ss) then 1 else 0)"
  "american_score lower t =
     (\<Sum>word\<leftarrow>american_keywords. if (\<exists>ps ss. lower t = ps @ word @ ss) then 1 else 0)"
  "australian_score lower t =
     (\<Sum>word\<leftarrow>australian_keywords. if (\<exists>ps ss. lower t = ps @ word @ ss) then 1 else 0)"
  unfolding british_score_def american_score_def australian_score_def
  by (rule keyword_score_presence)+

lemma score_card:
  "british_score lower t =
     int (card {word \<in> set british_keywords. \<exists>ps ss. lower t = ps @ word @ ss})"
  "american_score lower t =
     int (card {word \<in> set american_keywords. \<exists>ps ss. lower t = ps @ word @ ss})"
  "australian_score lower t =
     int (card {word \<in> set australian_keywords. \<exists>ps ss. lower t = ps @ word @ ss})"
  unfolding british_score_def american_score_def australian_score_def
  by (rule keyword_score_card [OF distinct_keywords(1)]
      keyword_score_card [OF distinct_keywords(2)]
      keyword_score_card [OF distinct_keywords(3)])+

text \<open>
  Claim C6. For every transcript and each of the three labels, the count of the label is
  the sum over its keywords of 1 for a keyword that is a substring of the lower-cased
  transcript and 0 for any other; it is the number of keywords of the list that occur.
  However often a keyword occurs it adds 1: \<open>"Mate, mate, MATE!"\<close> has the Australian
  count 1.
\<close>

theorem score_counts_presence:
  "scores_of (lower t) =
     [(''British'',
       (\<Sum>word\<leftarrow>british_keywords. if (\<exists>ps ss. lower t = ps @ word @ ss) then 1 else 0)),
      (''American'',
       (\<Sum>word\<leftarrow>american_keywords. if (\<exists>ps ss. lower t = ps @ word @ ss) then 1 else 0)),
      (''Australian'',
       (\<Sum>word\<leftarrow>australian_keywords. if (\<exists>ps ss. lower t = ps @ word @ ss) then 1 else 0))] \<and>
   british_score lower t =
     int (card {word \<in> set british_keywords. \<exists>ps ss. lower t = ps @ word @ ss}) \<and>
   american_score lower t =
     int (card {word \<in> set american_keywords. \<exists>ps ss. lower t = ps @ word @ ss}) \<and>
   australian_score lower t =
     int (card {word \<in> set australian_keywords. \<exists>ps ss. lower t = ps @ word @ ss}) \<and>
   australian_score ascii_lower ''Mate, mate, MATE!'' = 1"
proof -
  have "australian_score ascii_lower ''Mate, mate, MATE!'' = 1" by code_simp
  then show ?thesis
    by (simp only: scores_of_lower score_presence [symmetric] score_card [symmetric])
qed

text \<open>
  Claim C7. Matching is case-insensitive. The classifier reads its argument only through
  \<open>str.lower\<close>, so on every transcript \<open>t\<close> for which lower-casing the lower-cased text
  changes nothing, the output on \<open>t\<close> is the output on the lower-cased \<open>t\<close>. With
  \<open>"COLOUR AND MATE".lower() = "colour and mate"\<close> (and that string its own lower case),
  the upper-case text matches \<open>colour\<close> and \<open>mate\<close> and is classified as its lower-case
  form is: British, 50.
\<close>

theorem case_insensitive:
  assumes "lower (lower t) = lower t"
    and "lower ''COLOUR AND MATE'' = ''colour and mate''"
    and "lower ''colour and mate'' = ''colour and mate''"
  shows "simple_accent_classifier lower t = simple_accent_classifier lower (lower t) \<and>
    simple_accent_classifier lower ''COLOUR AND MATE''
      = simple_accent_classifier lower ''colour and mate'' \<and>
    str_in ''colour'' (lower ''COLOUR AND MATE'') \<and>
    str_in ''mate'' (lower ''COLOUR AND MATE'') \<and>
    simple_accent_classifier lower ''COLOUR AND MATE'' =
      Inr (''British'', 50, ''Detected keywords suggest British accent with confidence 50%.'')"
proof -
  have a: "simple_accent_classifier lower t = simple_accent_classifier lower (lower t)"
    by (simp only: simple_accent_classifier_def assms(1))
  have b: "simple_accent_classifier lower ''COLOUR AND MATE''
      = simple_accent_classifier lower ''colour and mate''"
    by (simp only: simple_accent_classifier_def assms(2,3))
  have c: "str_in ''colour'' ''colour and mate''" "str_in ''mate'' ''colour and mate''"
    by code_simp+
  have "simple_accent_classifier (\<lambda>x. x) ''colour and mate'' =
      Inr (''British'', 50, ''Detected keywords suggest British accent with confidence 50%.'')"
    by code_simp
  then have d: "simple_accent_classifier lower ''COLOUR AND MATE'' =
      Inr (''British'', 50, ''Detected keywords suggest British accent with confidence 50%.'')"
    by (simp only: simple_accent_classifier_def assms(2))
  from a b c d show ?thesis by (simp only: assms(2) simp_thms)
qed

theorem case_insensitive_witness:
  "ascii_lower (ascii_lower ''I Realize The TRUCK Is Late'') = ascii_lower ''I Realize The TRUCK Is Late'' \<and>
   ascii_lower ''COLOUR AND MATE'' = ''colour and mate'' \<and>
   ascii_lower ''colour and mate'' = ''colour and mate'' \<and>
   simple_accent_classifier ascii_lower ''I Realize The TRUCK Is Late''
     = simple_accent_classifier ascii_lower (ascii_lower ''I Realize The TRUCK Is Late'') \<and>
   simple_accent_classifier ascii_lower ''I Realize The TRUCK Is Late'' =
     Inr (''American'', 100, ''Detected keywords suggest American accent with confidence 100%.'') \<and>
   simple_accent_classifier ascii_lower ''COLOUR AND MATE'' =
      Inr (''British'', 50, ''Detected keywords suggest British accent with confidence 50%.'')"
proof -
  have h1: "ascii_lower (ascii_lower ''I Realize The TRUCK Is Late'')
      = ascii_lower ''I Realize The TRUCK Is Late''"
    by code_simp
  have h2: "ascii_lower ''COLOUR AND MATE'' = ''colour and mate''" by code_simp
  have h3: "ascii_lower ''colour and mate'' = ''colour and mate''" by code_simp
  have r: "simple_accent_classifier ascii_lower ''I Realize The TRUCK Is Late'' =
     Inr (''American'', 100, ''Detected keywords suggest American accent with confidence 100%.'')"
    by code_simp
  from case_insensitive [OF h1 h2 h3] h1 h2 h3 r show ?thesis by blast
qed

lemma single_scores:
  assumes "(label, ks) \<in> set lexicon" "word \<in> set ks" "\<exists>ps ss. lower t = ps @ word @ ss"
    and "\<forall>(label', ks')\<in>set lexicon. \<forall>word'\<in>set ks'.
           (\<exists>ps ss. lower t = ps @ word' @ ss) \<longrightarrow> word' = word"
  shows "scores_of (lower t) =
     [(''British'', if label = ''British'' then 1 else 0),
      (''American'', if label = ''American'' then 1 else 0),
      (''Australian'', if label = ''Australian'' then 1 else 0)]"
proof -
  from assms(4) have
    b: "\<forall>w\<in>set british_keywords. (\<exists>ps ss. lower t = ps @ w @ ss) \<longrightarrow> w = word" and
    a: "\<forall>w\<in>set american_keywords. (\<exists>ps ss. lower t = ps @ w @ ss) \<longrightarrow> w = word" and
    u: "\<forall>w\<in>set australian_keywords. (\<exists>ps ss. lower t = ps @ w @ ss) \<longrightarrow> w = word"
    by (simp_all only: lexicon_def list.set ball_simps prod.case) blast+
  have other: "keyword_score ks' (lower t) = 0"
    if "word \<notin> set ks'"
      and "\<forall>w\<in>set ks'. (\<exists>ps ss. lower t = ps @ w @ ss) \<longrightarrow> w = word" for ks'
  proof (rule keyword_score_none, intro ballI notI)
    fix w assume "w \<in> set ks'" "\<exists>ps ss. lower t = ps @ w @ ss"
    with that(2) have "w = word" by blast
    with \<open>w \<in> set ks'\<close> that(1) show False by blast
  qed
  from assms(1) consider
      "label = ''British''" "ks = british_keywords"
    | "label = ''American''" "ks = american_keywords"
    | "label = ''Australian''" "ks = australian_keywords"
    by (auto simp: lexicon_def)
  then show ?thesis
  proof cases
    case 1
    with assms(2) keywords_disjoint have "word \<notin> set american_keywords"
      "word \<notin> set australian_keywords" by blast+
    then have "keyword_score american_keywords (lower t) = 0"
      "keyword_score australian_keywords (lower t) = 0"
      using a u other by blast+
    moreover have "keyword_score british_keywords (lower t) = 1"
      using distinct_keywords(1) assms(2,3) b unfolding 1(2) by (rule keyword_score_single)
    ultimately show ?thesis using 1(1) by (simp add: scores_of_eq)
  next
    case 2
    with assms(2) keywords_disjoint have "word \<notin> set british_keywords"
      "word \<notin> set australian_keywords" by blast+
    then have "keyword_score british_keywords (lower t) = 0"
      "keyword_score australian_keywords (lower t) = 0"
      using b u other by blast+
    moreover have "keyword_score american_keywords (lower t) = 1"
      using distinct_keywords(2) assms(2,3) a unfolding 2(2) by (rule keyword_score_single)
    ultimately show ?thesis using 2(1) by (simp add: scores_of_eq)
  next
    case 3
    with assms(2) keywords_disjoint have "word \<notin> set british_keywords"
      "word \<notin> set american_keywords" by blast+
    then have "keyword_score british_keywords (lower t) = 0"
      "keyword_score american_keywords (lower t) = 0"
      using b a other by blast+
    moreover have "keyword_score australian_keywords (lower t) = 1"
      using distinct_keywords(3) assms(2,3) u unfolding 3(2) by (rule keyword_score_single)
    ultimately show ?thesis using 3(1) by (simp add: scores_of_eq)
  qed
qed

text \<open>
  Claim C8. When exactly one keyword occurs in the lower-cased transcript (\<open>word\<close>, of
  the list of \<open>label\<close>, and no other keyword of any of the three lists), the classifier
  returns \<open>label\<close> with confidence 100.
\<close>

theorem single_keyword_full_confidence:
  assumes "(label, ks) \<in> set lexicon" "word \<in> set ks" "\<exists>ps ss. lower t = ps @ word @ ss"
    and "\<forall>(label', ks')\<in>set lexicon. \<forall>word'\<in>set ks'.
           (\<exists>ps ss. lower t = ps @ word' @ ss) \<longrightarrow> word' = word"
  shows "simple_accent_classifier lower t =
     Inr (label, 100,
          ''Detected keywords suggest '' @ label @ '' accent with confidence 100%.'')"
proof -
  note sc = single_scores [where lower = lower and t = t, OF assms]
  have c: "confidence_of 1 1 = 100" using confidence_floor [of 1 1] by simp
  from assms(1) consider "label = ''British''" | "label = ''American''" | "label = ''Australian''"
    by (auto simp: lexicon_def)
  then show ?thesis
  proof cases
    case 1
    with sc have "scores_of (lower t) = [(''British'', 1), (''American'', 0), (''Australian'', 0)]"
      by simp
    from classifier_scores [of lower t, OF this] 1 c str_int_100 show ?thesis by simp
  next
    case 2
    with sc have "scores_of (lower t) = [(''British'', 0), (''American'', 1), (''Australian'', 0)]"
      by simp
    from classifier_scores [of lower t, OF this] 2 c str_int_100 show ?thesis by simp
  next
    case 3
    with sc have "scores_of (lower t) = [(''British'', 0), (''American'', 0), (''Australian'', 1)]"
      by simp
    from classifier_scores [of lower t, OF this] 3 c str_int_100 show ?thesis by simp
  qed
qed

theorem single_keyword_full_confidence_witness:
  "(''American'', american_keywords) \<in> set lexicon \<and>
   ''truck'' \<in> set american_keywords \<and>
   str_in ''truck'' (ascii_lower ''We took the Truck'') \<and>
   \<not> (\<exists>(label', ks')\<in>set lexicon. \<exists>word'\<in>set ks'.
         str_in word' (ascii_lower ''We took the Truck'') \<and> word' \<noteq> ''truck'') \<and>
   simple_accent_classifier ascii_lower ''We took the Truck'' =
     Inr (''American'', 100,
          ''Detected keywords suggest American accent with confidence 100%.'')"
proof -
  have h1: "(''American'', american_keywords) \<in> set lexicon" by (simp add: lexicon_def)
  have h2: "''truck'' \<in> set american_keywords" by (simp add: american_keywords_def)
  have s3: "str_in ''truck'' (ascii_lower ''We took the Truck'')" by code_simp
  then have h3: "\<exists>ps ss. ascii_lower ''We took the Truck'' = ps @ ''truck'' @ ss"
    by (simp only: str_in_iff)
  have s4: "\<forall>(label', ks')\<in>set lexicon. \<forall>word'\<in>set ks'.
         str_in word' (ascii_lower ''We took the Truck'') \<longrightarrow> word' = ''truck''"
    by code_simp
  then have h4: "\<forall>(label', ks')\<in>set lexicon. \<forall>word'\<in>set ks'.
         (\<exists>ps ss. ascii_lower ''We took the Truck'' = ps @ word' @ ss) \<longrightarrow> word' = ''truck''"
    by (simp only: str_in_iff)
  from s4 have n4: "\<not> (\<exists>(label', ks')\<in>set lexicon. \<exists>word'\<in>set ks'.
         str_in word' (ascii_lower ''We took the Truck'') \<and> word' \<noteq> ''truck'')"
    by blast
  from single_keyword_full_confidence
    [where lower = ascii_lower and t = "''We took the Truck''", OF h1 h2 h3 h4]
  have "simple_accent_classifier ascii_lower ''We took the Truck'' =
     Inr (''American'', 100,
          ''Detected keywords suggest American accent with confidence 100%.'')"
    by simp
  with h1 h2 s3 n4 show ?thesis by blast
qed

text \<open>
  Claim C10. On a transcript with a positive sum of counts the classifier returns the
  label at the first position, in the order British, American, Australian, whose count is
  the largest: no count is larger, and every label before it has a strictly smaller
  count. So among labels that tie for the maximum the earliest wins, and \<open>"color mate"\<close>
  (which is its own lower case; American 1, Australian 1) yields American.
\<close>

theorem tie_break_first_in_order:
  assumes "0 < total_count lower t"
  shows "(\<exists>i<3. \<exists>confidence explanation.
      simple_accent_classifier lower t =
        Inr ([''British'', ''American'', ''Australian''] ! i, confidence, explanation) \<and>
      (\<forall>j<3. [british_score lower t, american_score lower t, australian_score lower t] ! j
             \<le> [british_score lower t, american_score lower t, australian_score lower t] ! i) \<and>
      (\<forall>j<i. [british_score lower t, american_score lower t, australian_score lower t] ! j
             < [british_score lower t, american_score lower t, australian_score lower t] ! i)) \<and>
    (lower ''color mate'' = ''color mate'' \<longrightarrow>
       simple_accent_classifier lower ''color mate'' =
         Inr (''American'', 50, ''Detected keywords suggest American accent with confidence 50%.''))"
proof (intro conjI impI)
  let ?b = "british_score lower t" and ?a = "american_score lower t"
    and ?u = "australian_score lower t"
  note cp = classifier_positive [of lower t, OF assms, unfolded Let_def]
  have three: "\<And>j::nat. j < 3 \<longleftrightarrow> j = 0 \<or> j = 1 \<or> j = 2" by arith
  consider "?a \<le> ?b" "?u \<le> ?b" | "?b < ?a" "?u \<le> ?a" | "?b < ?u" "?a < ?u"
    by linarith
  then show "\<exists>i<3. \<exists>confidence explanation.
      simple_accent_classifier lower t =
        Inr ([''British'', ''American'', ''Australian''] ! i, confidence, explanation) \<and>
      (\<forall>j<3. [?b, ?a, ?u] ! j \<le> [?b, ?a, ?u] ! i) \<and>
      (\<forall>j<i. [?b, ?a, ?u] ! j < [?b, ?a, ?u] ! i)"
  proof cases
    case 1
    then have "simple_accent_classifier lower t =
        Inr ([''British'', ''American'', ''Australian''] ! 0,
          100 * max ?b (max ?a ?u) div total_count lower t,
          ''Detected keywords suggest British accent with confidence ''
            @ str_int (100 * max ?b (max ?a ?u) div total_count lower t) @ ''%.'')"
      by (simp add: cp)
    moreover have "\<forall>j<3. [?b, ?a, ?u] ! j \<le> [?b, ?a, ?u] ! 0"
      using 1 by (simp add: three)
    ultimately show ?thesis by (intro exI [of _ "0::nat"]) simp
  next
    case 2
    then have "simple_accent_classifier lower t =
        Inr ([''British'', ''American'', ''Australian''] ! 1,
          100 * max ?b (max ?a ?u) div total_count lower t,
          ''Detected keywords suggest American accent with confidence ''
            @ str_int (100 * max ?b (max ?a ?u) div total_count lower t) @ ''%.'')"
      by (simp add: cp)
    moreover have "\<forall>j<3. [?b, ?a, ?u] ! j \<le> [?b, ?a, ?u] ! 1"
      using 2 by (simp add: three)
    moreover have "\<forall>j<1. [?b, ?a, ?u] ! j < [?b, ?a, ?u] ! 1"
      using 2 by simp
    ultimately show ?thesis by (intro exI [of _ "1::nat"]) simp
  next
    case 3
    then have "simple_accent_classifier lower t =
        Inr ([''British'', ''American'', ''Australian''] ! 2,
          100 * max ?b (max ?a ?u) div total_count lower t,
          ''Detected keywords suggest Australian accent with confidence ''
            @ str_int (100 * max ?b (max ?a ?u) div total_count lower t) @ ''%.'')"
      by (auto simp add: cp)
    moreover have "\<forall>j<3. [?b, ?a, ?u] ! j \<le> [?b, ?a, ?u] ! 2"
      using 3 by (simp add: three)
    moreover have "\<forall>j<2. [?b, ?a, ?u] ! j < [?b, ?a, ?u] ! 2"
      using 3 by (simp add: less_Suc_eq numeral_2_eq_2)
    ultimately show ?thesis by (intro exI [of _ "2::nat"]) simp
  qed
next
  assume l: "lower ''color mate'' = ''color mate''"
  have "simple_accent_classifier (\<lambda>x. x) ''color mate'' =
         Inr (''American'', 50, ''Detected keywords suggest American accent with confidence 50%.'')"
    by code_simp
  then show "simple_accent_classifier lower ''color mate'' =
         Inr (''American'', 50, ''Detected keywords suggest American accent with confidence 50%.'')"
    by (simp only: simple_accent_classifier_def l)
qed

theorem tie_break_first_in_order_witness:
  "0 < total_count ascii_lower ''color mate'' \<and>
   american_score ascii_lower ''color mate'' = 1 \<and>
   australian_score ascii_lower ''color mate'' = 1 \<and>
   british_score ascii_lower ''color mate'' = 0 \<and>
   ascii_lower ''color mate'' = ''color mate'' \<and>
   simple_accent_classifier ascii_lower ''color mate'' =
     Inr (''American'', 50, ''Detected keywords suggest American accent with confidence 50%.'')"
proof -
  have h: "0 < total_count ascii_lower ''color mate''" by code_simp
  have s: "american_score ascii_lower ''color mate'' = 1"
    "australian_score ascii_lower ''color mate'' = 1"
    "british_score ascii_lower ''color mate'' = 0" by code_simp+
  have l: "ascii_lower ''color mate'' = ''color mate''" by code_simp
  from tie_break_first_in_order [of ascii_lower "''color mate''", OF h] l
  have "simple_accent_classifier ascii_lower ''color mate'' =
     Inr (''American'', 50, ''Detected keywords suggest American accent with confidence 50%.'')"
    by blast
  with h s l show ?thesis by blast
qed

section \<open>Facts about the pipeline\<close>



lemma download_video_facts:
  assumes "download_video env url out_file s = (r, s')"
  shows "ui_errors s' = ui_errors s" "open_clips s' = open_clips s" "\<And>v. r = Inr v \<Longrightarrow> v = out_file"
  using assms by (auto simp: download_video_def split: prod.splits sum.splits)









section \<open>The claims about the pipeline\<close>


text \<open>Runs of the pipeline in the environments defined above.\<close>

lemmas run_defs =
  process_video_def try_body_def except_clause_def finally_block_def remove_if_exists_def
  os_remove_def os_path_exists_def st_error_def clip_close_def download_video_def
  extract_audio_def transcribe_audio_def env_ok_def env_silent_def env_disk_full_def
  env_locked_def env_silent_locked_def env_interrupted_def state0_def Let_def

lemma transcript_ok:
  "simple_accent_classifier ascii_lower ''My favourite colour, mate'' =
     Inr (''British'', 66, ''Detected keywords suggest British accent with confidence 66%.'')"
  by code_simp

lemma run_ok:
  "process_video env_ok ''https://example.com/v'' state0 =
     (Inr (Some ''My favourite colour, mate'', Some ''British'', Some 66,
           Some ''Detected keywords suggest British accent with confidence 66%.''),
      state0)"
  by (auto simp add: run_defs transcript_ok)




lemma run_silent:
  "process_video env_silent ''https://example.com/v'' state0 =
     (Inr (None, None, None, None),
      \<lparr>files = {}, open_clips = [],
       ui_errors = [''Error: No audio stream found in downloaded_video.mp4'']\<rparr>)"
  by (auto simp add: run_defs)







text \<open>
  Claim C5, amended. When the clip opened from the video file has no audio,
  \<open>extract_audio\<close> raises \<open>RuntimeError("No audio stream found in <video file>")\<close>, an
  exception of its own with the name of the file and not the error of a library, and
  the clip it opened is closed again (the open clips are as before the call). When this
  happens in a run of \<open>process_video\<close> after the download has returned, and the
  \<open>os.remove\<close> of the video file does not fail, \<open>process_video\<close> reports
  \<open>"Error: No audio stream found in downloaded_video.mp4"\<close>, returns the tuple of four
  \<open>None\<close>, and the video file does not exist afterwards.
\<close>

theorem no_audio_track:
  "(\<forall>fs'. open_video env video_file (files s) = (Inr False, fs') \<longrightarrow>
      extract_audio env video_file audio_file s =
        (Inl (RuntimeError (''No audio stream found in '' @ video_file)), s\<lparr>files := fs'\<rparr>) \<and>
      open_clips (snd (extract_audio env video_file audio_file s)) = open_clips s) \<and>
   (\<forall>s1 fs'.
      download_video env url ''downloaded_video.mp4'' s0 = (Inr ''downloaded_video.mp4'', s1) \<and>
      open_video env ''downloaded_video.mp4'' (files s1) = (Inr False, fs') \<and>
      os_remove_error env ''downloaded_video.mp4'' fs' = None \<longrightarrow>
        fst (process_video env url s0) = Inr (None, None, None, None) \<and>
        ui_errors (snd (process_video env url s0))
          = ui_errors s0 @ [''Error: No audio stream found in downloaded_video.mp4''] \<and>
        ''downloaded_video.mp4'' \<notin> files (snd (process_video env url s0)) \<and>
        open_clips (snd (process_video env url s0)) = open_clips s0)"
proof (intro conjI allI impI)
  fix fs' assume o: "open_video env video_file (files s) = (Inr False, fs')"
  then show x: "extract_audio env video_file audio_file s =
        (Inl (RuntimeError (''No audio stream found in '' @ video_file)), s\<lparr>files := fs'\<rparr>)"
    by (simp add: extract_audio_def clip_close_def Let_def)
  then show "open_clips (snd (extract_audio env video_file audio_file s)) = open_clips s"
    by simp
next
  fix s1 fs'
  assume a: "download_video env url ''downloaded_video.mp4'' s0 = (Inr ''downloaded_video.mp4'', s1) \<and>
      open_video env ''downloaded_video.mp4'' (files s1) = (Inr False, fs') \<and>
      os_remove_error env ''downloaded_video.mp4'' fs' = None"
  then have x: "extract_audio env ''downloaded_video.mp4'' ''audio.wav'' s1 =
        (Inl (RuntimeError ''No audio stream found in downloaded_video.mp4''), s1\<lparr>files := fs'\<rparr>)"
    by (simp add: extract_audio_def clip_close_def Let_def)
  from a have d: "download_video env url ''downloaded_video.mp4'' s0
      = (Inr ''downloaded_video.mp4'', s1)" by blast
  note f = download_video_facts(1,2) [OF d]
  from a have r: "os_remove_error env ''downloaded_video.mp4'' fs' = None" by blast
  have pv: "process_video env url s0 =
      (Inr (None, None, None, None),
       s1\<lparr>files := fs' - {''downloaded_video.mp4''},
          ui_errors := ui_errors s1 @ [''Error: No audio stream found in downloaded_video.mp4'']\<rparr>)"
    using d x r
    by (auto simp add: process_video_def try_body_def except_clause_def finally_block_def
        remove_if_exists_def os_remove_def os_path_exists_def st_error_def)
  show "fst (process_video env url s0) = Inr (None, None, None, None)"
    "ui_errors (snd (process_video env url s0))
          = ui_errors s0 @ [''Error: No audio stream found in downloaded_video.mp4'']"
    "''downloaded_video.mp4'' \<notin> files (snd (process_video env url s0))"
    "open_clips (snd (process_video env url s0)) = open_clips s0"
    using f by (simp_all add: pv)
qed

theorem no_audio_track_witness:
  "download_video env_silent ''https://example.com/v'' ''downloaded_video.mp4'' state0
     = (Inr ''downloaded_video.mp4'', state0\<lparr>files := {''downloaded_video.mp4''}\<rparr>) \<and>
   open_video env_silent ''downloaded_video.mp4'' {''downloaded_video.mp4''}
     = (Inr False, {''downloaded_video.mp4''}) \<and>
   os_remove_error env_silent ''downloaded_video.mp4'' {''downloaded_video.mp4''} = None \<and>
   extract_audio env_silent ''downloaded_video.mp4'' ''audio.wav''
       (state0\<lparr>files := {''downloaded_video.mp4''}\<rparr>)
     = (Inl (RuntimeError ''No audio stream found in downloaded_video.mp4''),
        state0\<lparr>files := {''downloaded_video.mp4''}\<rparr>) \<and>
   fst (process_video env_silent ''https://example.com/v'' state0)
     = Inr (None, None, None, None) \<and>
   ui_errors (snd (process_video env_silent ''https://example.com/v'' state0))
     = [''Error: No audio stream found in downloaded_video.mp4''] \<and>
   ''downloaded_video.mp4'' \<notin> files (snd (process_video env_silent ''https://example.com/v'' state0)) \<and>
   open_clips (snd (process_video env_silent ''https://example.com/v'' state0)) = []"
proof -
  let ?s1 = "state0\<lparr>files := {''downloaded_video.mp4''}\<rparr>"
  have d: "download_video env_silent ''https://example.com/v'' ''downloaded_video.mp4'' state0
     = (Inr ''downloaded_video.mp4'', ?s1)"
    by (simp add: download_video_def env_silent_def env_ok_def state0_def)
  have o: "open_video env_silent ''downloaded_video.mp4'' {''downloaded_video.mp4''}
     = (Inr False, {''downloaded_video.mp4''})"
    by (simp add: env_silent_def env_ok_def)
  have r: "os_remove_error env_silent ''downloaded_video.mp4'' {''downloaded_video.mp4''} = None"
    by (simp add: env_silent_def env_ok_def)
  have f: "files ?s1 = {''downloaded_video.mp4''}" by simp
  note w = no_audio_track [of env_silent "''downloaded_video.mp4''" ?s1 "''audio.wav''"
      "''https://example.com/v''" state0]
  note w' = w [unfolded f]
  from w' o have x: "extract_audio env_silent ''downloaded_video.mp4'' ''audio.wav'' ?s1
     = (Inl (RuntimeError (''No audio stream found in '' @ ''downloaded_video.mp4'')),
        ?s1\<lparr>files := {''downloaded_video.mp4''}\<rparr>)"
    by blast
  have c: "download_video env_silent ''https://example.com/v'' ''downloaded_video.mp4'' state0
        = (Inr ''downloaded_video.mp4'', ?s1) \<and>
      open_video env_silent ''downloaded_video.mp4'' (files ?s1)
        = (Inr False, {''downloaded_video.mp4''}) \<and>
      os_remove_error env_silent ''downloaded_video.mp4'' {''downloaded_video.mp4''} = None"
    using d o r by simp
  note p = w [THEN conjunct2, rule_format, OF c]
  have z: "ui_errors state0 = []" "open_clips state0 = []" by (simp_all add: state0_def)
  from x have x': "extract_audio env_silent ''downloaded_video.mp4'' ''audio.wav'' ?s1
     = (Inl (RuntimeError ''No audio stream found in downloaded_video.mp4''), ?s1)"
    by simp
  from d o r x' p show ?thesis unfolding z by simp
qed

text \<open>
  Claim C5 as stated fails when the \<open>os.remove\<close> of the video file fails: the extractor
  has raised its \<open>RuntimeError\<close>, but the video file still exists after the run, and the
  exception of \<open>os.remove\<close> leaves \<open>process_video\<close>.
\<close>

theorem no_audio_track_counterexample:
  "fst (extract_audio env_silent_locked ''downloaded_video.mp4'' ''audio.wav''
         (snd (download_video env_silent_locked ''https://example.com/v''
                 ''downloaded_video.mp4'' state0)))
     = Inl (RuntimeError ''No audio stream found in downloaded_video.mp4'') \<and>
   fst (process_video env_silent_locked ''https://example.com/v'' state0)
     = Inl (LibraryError ''PermissionError''
          ''[WinError 32] The process cannot access the file'') \<and>
   ''downloaded_video.mp4''
     \<in> files (snd (process_video env_silent_locked ''https://example.com/v'' state0))"
  by (simp add: run_defs)

end
